theory Spec2Isabelle
  imports Main
begin

section \<open>The scroll container and the component's inputs\<close>

text \<open>
  The component \<open>InfiniteScroll\<close> of \<open>src/index.tsx\<close> registers three effects on one
  scrollable container: an intersection observer on two sentinels (pagination), a resize
  observer on the container (scroll compensation) and a pass over the rendered messages
  that wraps the occurrences of the search query (highlighting).

  The container is the element \<open>scrollRef.current\<close>. Of the DOM it offers, the component
  reads \<open>scrollHeight\<close>, reads and writes \<open>scrollTop\<close>, and looks message elements up with
  \<open>querySelector\<close> and a selector on the attribute \<open>data-message-id\<close>. Extents and offsets are whole
  CSS pixels. \<open>scrollTop\<close> holds the value the component assigns: the range to which a
  browser may afterwards clamp an offset depends on the layout and is not part of this
  development. The message elements are kept in document order; they are taken not to be
  nested in one another.
\<close>

datatype node = Text string | Element string "(string \<times> string) list" "node list"

record message_element =
  data_message_id :: string
  childNodes :: "node list"

record container =
  scrollHeight :: int
  scrollTop :: int
  message_elements :: "message_element list"

datatype direction = Up | Middle | Down

text \<open>An \<open>IntersectionObserverEntry\<close>, with the two properties the callback reads.\<close>

record entry =
  isIntersecting :: bool
  target_id :: string

text \<open>
  What the component does to its environment besides writing to the container: it calls
  the two load callbacks, asks an element to scroll into view, and hands a callback to
  \<open>setTimeout\<close>. The only callback it ever schedules is \<open>() => setIsLoading(false)\<close>.
\<close>

datatype timer_callback = SetIsLoading bool

datatype effect =
    LoadMoreTop
  | LoadMoreBottom
  | ScrollIntoView nat string string
  | SetTimeout timer_callback nat
  | SetInnerHTML nat string

section \<open>Pagination trigger\<close>

text \<open>
  The body of \<open>entries.forEach\<close> in \<open>observerCallback\<close> (lines 54 to 65). \<open>isLoading\<close>,
  \<open>isTopFetchMore\<close> and \<open>isBottomFetchMore\<close> are the values the closure captured;
  \<open>scrollRef\<close> is \<open>scrollRef.current\<close>, \<open>None\<close> when the container is not mounted.
\<close>

definition observerEntry ::
  "bool \<Rightarrow> bool \<Rightarrow> bool \<Rightarrow> container option \<Rightarrow> entry \<Rightarrow> effect list" where
  "observerEntry isLoading isTopFetchMore isBottomFetchMore scrollRef e =
     (if isIntersecting e \<and> \<not> isLoading \<and> scrollRef \<noteq> None then
        (if target_id e = ''top-sentinel'' \<and> isTopFetchMore then [LoadMoreTop]
         else if target_id e = ''bottom-sentinel'' \<and> isBottomFetchMore then [LoadMoreBottom]
         else [])
      else [])"

fun observerCallback ::
  "bool \<Rightarrow> bool \<Rightarrow> bool \<Rightarrow> container option \<Rightarrow> entry list \<Rightarrow> effect list" where
  "observerCallback isLoading isTop isBottom scrollRef [] = []"
| "observerCallback isLoading isTop isBottom scrollRef (e # es) =
     observerEntry isLoading isTop isBottom scrollRef e
       @ observerCallback isLoading isTop isBottom scrollRef es"

section \<open>Calls into the platform\<close>

text \<open>
  The component hands strings it builds from its inputs to the platform: a selector to
  \<open>querySelector\<close>, a pattern to \<open>new RegExp\<close>, markup to \<open>innerHTML\<close>. Such a call returns,
  or throws, or gets an input whose treatment by the platform is not defined in this
  theory: \<open>Beyond\<close> stands for the last, and nothing is stated about a run that meets it.
\<close>

datatype js_error = SyntaxError

datatype 'a completion = Returns 'a | Throws js_error | Beyond

fun strip_prefix :: "string \<Rightarrow> string \<Rightarrow> string option" where
  "strip_prefix [] s = Some s"
| "strip_prefix (p # ps) [] = None"
| "strip_prefix (p # ps) (x # xs) = (if p = x then strip_prefix ps xs else None)"

section \<open>Looking a message element up\<close>

text \<open>
  The selector of lines 107 to 109, 142 to 144 and 168 to 170: the identifier is put
  between double quotes as it is, without escaping.
\<close>

definition message_selector :: "string \<Rightarrow> string" where
  "message_selector k = ''[data-message-id='' @ [CHR 0x22] @ k @ [CHR 0x22] @ '']''"

text \<open>
  The template literal \<open>${cursor}\<close> with \<open>cursor: string | null\<close>: \<open>null\<close> is written out
  as the four characters \<open>null\<close>.
\<close>

fun template_string :: "string option \<Rightarrow> string" where
  "template_string None = ''null''"
| "template_string (Some s) = s"

text \<open>
  Reading a double-quoted CSS string after its opening quote: \<open>acc\<close> holds the characters
  read so far, last first. The next double quote closes the string. A line break (line
  feed, carriage return, form feed) inside it makes a bad string, and the selector is
  invalid whatever follows. A backslash starts an escape and NUL is replaced by another
  character; both, and a string the input ends in, are \<open>Beyond\<close>. \<open>css_plain\<close> holds of
  the characters that stand for themselves.
\<close>

definition css_plain :: "char \<Rightarrow> bool" where
  "css_plain c =
     (c \<noteq> CHR 0x22 \<and> c \<noteq> CHR 0x0A \<and> c \<noteq> CHR 0x0D \<and> c \<noteq> CHR 0x0C
        \<and> c \<noteq> CHR 0x5C \<and> c \<noteq> CHR 0x00)"

fun css_string :: "string \<Rightarrow> string \<Rightarrow> (string \<times> string) completion" where
  "css_string acc [] = Beyond"
| "css_string acc (c # cs) =
     (if c = CHR 0x22 then Returns (rev acc, cs)
      else if c = CHR 0x0A \<or> c = CHR 0x0D \<or> c = CHR 0x0C then Throws SyntaxError
      else if c = CHR 0x5C \<or> c = CHR 0x00 then Beyond
      else css_string (c # acc) cs)"

fun find_index_from :: "nat \<Rightarrow> string \<Rightarrow> message_element list \<Rightarrow> nat option" where
  "find_index_from i k [] = None"
| "find_index_from i k (m # ms) =
     (if data_message_id m = k then Some i else find_index_from (Suc i) k ms)"

text \<open>
  \<open>scrollElement.querySelector(selector)\<close>, for the selectors that start as
  \<open>message_selector\<close> writes them. If the string is closed and \<open>]\<close> ends the selector, the
  result is the index of the first message element in document order whose attribute
  equals the value of the string, \<open>None\<close> for \<open>null\<close>. If the string is closed and only a
  second, unclosed string holding \<open>]\<close> follows, the attribute selector has two values, the
  selector is invalid and the call throws a \<open>SyntaxError\<close>. Any other rest can be a
  selector or not and is \<open>Beyond\<close>.
\<close>

definition querySelector :: "container \<Rightarrow> string \<Rightarrow> nat option completion" where
  "querySelector c selector =
     (case strip_prefix (''[data-message-id='' @ [CHR 0x22]) selector of
        None \<Rightarrow> Beyond
      | Some body \<Rightarrow>
          (case css_string [] body of
             Throws e \<Rightarrow> Throws e
           | Beyond \<Rightarrow> Beyond
           | Returns (v, rest) \<Rightarrow>
               (if rest = '']'' then Returns (find_index_from 0 v (message_elements c))
                else if rest = CHR 0x22 # '']'' then Throws SyntaxError
                else Beyond)))"

section \<open>Reflow compensator\<close>

text \<open>
  The state the resize callback works on: \<open>scrollRef.current\<close> and
  \<open>prevScrollHeightRef.current\<close> (initially 0).
\<close>

record reflow_state =
  scrollRef_current :: "container option"
  prevScrollHeightRef_current :: int

text \<open>
  A run of the callback completes, or an exception leaves it, or it is \<open>Undescribed\<close>
  (it met \<open>Beyond\<close>). Both a completed and an aborted run come with the state they leave
  and the effects they caused, in order.
\<close>

datatype 's run = Completes 's | Aborts js_error 's | Undescribed

text \<open>
  The branch on \<open>direction\<close> (lines 102 to 120): the container it leaves and its effects.
  \<open>scrollIntoView\<close> is recorded as an effect on the element found; the offset the layout
  engine gives the container for it is not modelled.
\<close>

definition compensate ::
  "direction \<Rightarrow> string option \<Rightarrow> int \<Rightarrow> container \<Rightarrow> (container \<times> effect list) completion" where
  "compensate dir cursor scrollHeightDiff c =
     (case dir of
        Up \<Rightarrow> Returns (c\<lparr>scrollTop := scrollTop c + scrollHeightDiff\<rparr>, [])
      | Down \<Rightarrow> Returns (c\<lparr>scrollTop := - scrollHeightDiff\<rparr>, [])
      | Middle \<Rightarrow>
          (case querySelector c (message_selector (template_string cursor)) of
             Returns (Some targetMessage) \<Rightarrow>
               Returns (c, [ScrollIntoView targetMessage ''auto'' ''center'',
                            SetTimeout (SetIsLoading False) 1000])
           | Returns None \<Rightarrow> Returns (c, [])
           | Throws e \<Rightarrow> Throws e
           | Beyond \<Rightarrow> Beyond))"

text \<open>
  The callback handed to \<open>ResizeObserver\<close> (lines 98 to 123), for the \<open>direction\<close> and
  \<open>cursor\<close> its closure captured. Line 121 stores the extent only after the branch has
  returned: an exception from the lookup leaves the callback before, with the state as it
  was.
\<close>

definition resizeCallback ::
  "direction \<Rightarrow> string option \<Rightarrow> reflow_state \<Rightarrow> (reflow_state \<times> effect list) run" where
  "resizeCallback dir cursor st =
     (case scrollRef_current st of
        None \<Rightarrow> Completes (st, [])
      | Some c \<Rightarrow>
          (let newScrollHeight = scrollHeight c;
               scrollHeightDiff = newScrollHeight - prevScrollHeightRef_current st
           in case compensate dir cursor scrollHeightDiff c of
                Returns (c', effects) \<Rightarrow>
                  Completes
                    (\<lparr>scrollRef_current = Some c', prevScrollHeightRef_current = newScrollHeight\<rparr>,
                     effects)
              | Throws e \<Rightarrow> Aborts e (st, [])
              | Beyond \<Rightarrow> Undescribed))"

text \<open>
  The arguments with which \<open>setIsLoading\<close> is called once the timers a list of effects
  scheduled have fired. No effect calls the setter directly.
\<close>

fun setIsLoading_calls :: "effect list \<Rightarrow> bool list" where
  "setIsLoading_calls [] = []"
| "setIsLoading_calls (SetTimeout (SetIsLoading b) d # es) = b # setIsLoading_calls es"
| "setIsLoading_calls (e # es) = setIsLoading_calls es"

section \<open>Strings and regular expressions of the platform\<close>

text \<open>
  The highlighter calls \<open>toLowerCase\<close>, \<open>includes\<close>, \<open>new RegExp\<close>, \<open>split\<close>, \<open>map\<close> and
  \<open>join\<close>. A string is a list of code units, and this development takes the code units
  below 256 (ISO 8859-1), which is what \<^typ>\<open>char\<close> holds. Where the
  highlighter throws, the document the exception leaves is not kept.
\<close>

text \<open>
  \<open>String.prototype.toLowerCase\<close> on one code unit: the letters A to Z, and the
  capital letters of ISO 8859-1 (0xC0 to 0xDE without the multiplication sign 0xD7), move
  up by 32.
\<close>

definition toLowerCase_unit :: "char \<Rightarrow> char" where
  "toLowerCase_unit c =
     (let n = (of_char c :: nat)
      in if (65 \<le> n \<and> n \<le> 90) \<or> (192 \<le> n \<and> n \<le> 222 \<and> n \<noteq> 215)
         then char_of (n + 32) else c)"

definition toLowerCase :: "string \<Rightarrow> string" where
  "toLowerCase s = map toLowerCase_unit s"

fun startsWith :: "string \<Rightarrow> string \<Rightarrow> bool" where
  "startsWith s [] = True"
| "startsWith [] (q # qs) = False"
| "startsWith (x # xs) (q # qs) = (x = q \<and> startsWith xs qs)"

text \<open>\<open>s.includes(q)\<close>: \<open>q\<close> occurs in \<open>s\<close> at some position.\<close>

fun includes_string :: "string \<Rightarrow> string \<Rightarrow> bool" where
  "includes_string [] q = (q = [])"
| "includes_string (x # xs) q = (startsWith (x # xs) q \<or> includes_string xs q)"

text \<open>
  The patterns described: sequences of ordinary characters, the dot, and capturing
  groups. A pattern that uses any other syntax character of the pattern language
  (backslash, \<open>^\<close>, \<open>$\<close>, \<open>*\<close>, \<open>+\<close>, \<open>?\<close>, brackets, braces, \<open>|\<close>) is \<open>Beyond\<close>. Among the
  patterns described, \<open>new RegExp\<close> throws a \<open>SyntaxError\<close> exactly when the parentheses do
  not balance.
\<close>

datatype regex = Chr char | AnyChar | Group "regex list"

definition unsupported_syntax :: "char \<Rightarrow> bool" where
  "unsupported_syntax c =
     (c \<in> set [CHR 0x5C, CHR ''^'', CHR ''$'', CHR ''*'', CHR ''+'', CHR ''?'',
                CHR ''['', CHR '']'', CHR ''{'', CHR ''}'', CHR ''|''])"

text \<open>
  \<open>parse_pattern cs cur stack\<close> reads the rest \<open>cs\<close> of a pattern; \<open>cur\<close> holds the terms
  of the innermost open group read so far, last first, and \<open>stack\<close> those of the groups
  around it.
\<close>

fun parse_pattern :: "string \<Rightarrow> regex list \<Rightarrow> regex list list \<Rightarrow> regex list completion" where
  "parse_pattern [] cur stack =
     (case stack of [] \<Rightarrow> Returns (rev cur) | outer # stack' \<Rightarrow> Throws SyntaxError)"
| "parse_pattern (c # cs) cur stack =
     (if c = CHR ''('' then parse_pattern cs [] (cur # stack)
      else if c = CHR '')'' then
        (case stack of
           [] \<Rightarrow> Throws SyntaxError
         | outer # stack' \<Rightarrow> parse_pattern cs (Group (rev cur) # outer) stack')
      else if c = CHR ''.'' then parse_pattern cs (AnyChar # cur) stack
      else parse_pattern cs (Chr c # cur) stack)"

text \<open>\<open>new RegExp(pattern, "gi")\<close>.\<close>

definition RegExp :: "string \<Rightarrow> regex list completion" where
  "RegExp pattern =
     (if list_ex unsupported_syntax pattern then Beyond else parse_pattern pattern [] [])"

text \<open>
  The comparison of the flag \<open>i\<close> maps both code units to upper case (\<open>Canonicalize\<close>).
  The two code units of ISO 8859-1 whose capital lies above 255 (0xB5 and 0xFF) are
  related to no other code unit below 256 and are left as they are. The dot matches any
  code unit but a line terminator.
\<close>

definition canonicalize :: "char \<Rightarrow> char" where
  "canonicalize c =
     (let n = (of_char c :: nat)
      in if (97 \<le> n \<and> n \<le> 122) \<or> (224 \<le> n \<and> n \<le> 254 \<and> n \<noteq> 247)
         then char_of (n - 32) else c)"

definition lineTerminator :: "char \<Rightarrow> bool" where
  "lineTerminator c = (c = CHR 0x0A \<or> c = CHR 0x0D)"

text \<open>
  Matching at the start of the input: the text matched, the captures of the groups in the
  order of their opening parentheses, and the input left. Without alternatives and
  quantifiers there is at most one way to match and every group takes part.
\<close>

fun match_term :: "regex \<Rightarrow> string \<Rightarrow> (string \<times> string list \<times> string) option"
  and match_seq :: "regex list \<Rightarrow> string \<Rightarrow> (string \<times> string list \<times> string) option" where
  "match_term (Chr c) [] = None"
| "match_term (Chr c) (x # xs) =
     (if canonicalize x = canonicalize c then Some ([x], [], xs) else None)"
| "match_term AnyChar [] = None"
| "match_term AnyChar (x # xs) = (if lineTerminator x then None else Some ([x], [], xs))"
| "match_term (Group rs) inp =
     (case match_seq rs inp of
        None \<Rightarrow> None
      | Some (w, caps, rest) \<Rightarrow> Some (w, w # caps, rest))"
| "match_seq [] inp = Some ([], [], inp)"
| "match_seq (r # rs) inp =
     (case match_term r inp of
        None \<Rightarrow> None
      | Some (w1, caps1, rest1) \<Rightarrow>
          (case match_seq rs rest1 of
             None \<Rightarrow> None
           | Some (w2, caps2, rest2) \<Rightarrow> Some (w1 @ w2, caps1 @ caps2, rest2)))"

definition substring :: "string \<Rightarrow> nat \<Rightarrow> nat \<Rightarrow> string" where
  "substring s a b = take (b - a) (drop a s)"

text \<open>
  \<open>S.split(re)\<close> without a limit, as \<open>RegExp.prototype[Symbol.split]\<close> runs it: \<open>p\<close> is the
  end of the last match, \<open>q\<close> the position tried next. A match at \<open>q\<close> that ends at \<open>p\<close> is
  skipped; any other match closes the piece from \<open>p\<close> to \<open>q\<close>, and the captures of all its
  groups follow that piece in the result.
\<close>

function split_from :: "regex list \<Rightarrow> string \<Rightarrow> nat \<Rightarrow> nat \<Rightarrow> string list" where
  "split_from r S p q =
     (if q < length S then
        (case match_seq r (drop q S) of
           None \<Rightarrow> split_from r S p (Suc q)
         | Some (w, caps, rest) \<Rightarrow>
             (let e = min (q + length w) (length S)
              in if e = p then split_from r S p (Suc q)
                 else substring S p q # caps @ split_from r S e e))
      else [substring S p (length S)])"
  by pat_completeness auto
termination
  by (relation "measure (\<lambda>(r, S, p, q). 2 * (length S - q) + (if p = q then 0 else 1))")
    (auto split: if_splits)

definition split_regexp :: "string \<Rightarrow> regex list \<Rightarrow> string list" where
  "split_regexp S r =
     (if S = [] then (case match_seq r [] of None \<Rightarrow> [S] | Some z \<Rightarrow> [])
      else split_from r S 0 0)"

section \<open>Content of a message element\<close>

text \<open>
  The highlighter reads \<open>textContent\<close> and assigns \<open>innerHTML\<close>. \<open>textContent\<close> is the text of
  all text nodes below an element, in document order.
\<close>

fun textContent :: "node \<Rightarrow> string" where
  "textContent (Text s) = s"
| "textContent (Element tag attrs children) = concat (map textContent children)"

definition textContent_of :: "node list \<Rightarrow> string" where
  "textContent_of ns = concat (map textContent ns)"

text \<open>
  Assigning \<open>innerHTML\<close> parses the markup as a fragment. The markup described: character
  data without \<open><\<close>, \<open>&\<close>, NUL and carriage return, and elements
  \<open><span class="v">t</span>\<close> in the very form the highlighter writes them, with \<open>v\<close> free of
  the double quote, \<open>&\<close>, NUL and carriage return, and \<open>t\<close> character data as above. For
  such markup the parser yields one text node for every maximal run of character data
  and one \<open>span\<close> element with that class for every such element; the message element is
  taken to be an ordinary container (a \<open>div\<close>, say), for which fragments are parsed as
  body content. For any other markup \<open>parse_html\<close> is \<open>None\<close>.
\<close>

definition data_char :: "char \<Rightarrow> bool" where
  "data_char c = (c \<noteq> CHR ''<'' \<and> c \<noteq> CHR ''&'' \<and> c \<noteq> CHR 0x00 \<and> c \<noteq> CHR 0x0D)"

definition value_char :: "char \<Rightarrow> bool" where
  "value_char c = (c \<noteq> CHR 0x22 \<and> c \<noteq> CHR ''&'' \<and> c \<noteq> CHR 0x00 \<and> c \<noteq> CHR 0x0D)"

definition span_start :: string where
  "span_start = ''<span class='' @ [CHR 0x22]"

definition span_end :: string where
  "span_end = ''</span>''"

lemma strip_prefix_length:
  "strip_prefix p s = Some r \<Longrightarrow> length s = length p + length r"
  by (induction p s rule: strip_prefix.induct) (auto split: if_splits)

function parse_html :: "string \<Rightarrow> node list option" where
  "parse_html s =
     (if s = [] then Some []
      else if data_char (hd s) then
        (case parse_html (dropWhile data_char s) of
           None \<Rightarrow> None
         | Some ns \<Rightarrow> Some (Text (takeWhile data_char s) # ns))
      else
        (case strip_prefix span_start s of
           None \<Rightarrow> None
         | Some r1 \<Rightarrow>
             (case strip_prefix (CHR 0x22 # ''>'') (dropWhile value_char r1) of
                None \<Rightarrow> None
              | Some r2 \<Rightarrow>
                  (case strip_prefix span_end (dropWhile data_char r2) of
                     None \<Rightarrow> None
                   | Some r3 \<Rightarrow>
                       (case parse_html r3 of
                          None \<Rightarrow> None
                        | Some ns \<Rightarrow>
                            Some (Element ''span'' [(''class'', takeWhile value_char r1)]
                                    (if takeWhile data_char r2 = [] then []
                                     else [Text (takeWhile data_char r2)]) # ns))))))"
  by pat_completeness auto
termination
proof (relation "measure length")
  show "wf (measure length)" by simp
next
  fix s :: string
  assume "s \<noteq> []" "data_char (hd s)"
  then show "(dropWhile data_char s, s) \<in> measure length"
    by (cases s) (auto simp: le_imp_less_Suc length_dropWhile_le)
next
  fix s r1 r2 r3 :: string
  assume a: "strip_prefix span_start s = Some r1"
    "strip_prefix (CHR 0x22 # ''>'') (dropWhile value_char r1) = Some r2"
    "strip_prefix span_end (dropWhile data_char r2) = Some r3"
  have "length r3 \<le> length (dropWhile data_char r2)"
    using strip_prefix_length [OF a(3)] by simp
  also have "\<dots> \<le> length r2" by (rule length_dropWhile_le)
  also have "\<dots> \<le> length (dropWhile value_char r1)"
    using strip_prefix_length [OF a(2)] by simp
  also have "\<dots> \<le> length r1" by (rule length_dropWhile_le)
  also have "\<dots> < length s"
    using strip_prefix_length [OF a(1)] by (simp add: span_start_def)
  finally show "(r3, s) \<in> measure length" by simp
qed

declare parse_html.simps [simp del]

text \<open>
  A document is the container together with the assignments to \<open>innerHTML\<close> made so far,
  each recorded as \<open>SetInnerHTML i markup\<close> for the message element at index \<open>i\<close>.
\<close>

type_synonym document = "container \<times> effect list"

definition set_innerHTML :: "nat \<Rightarrow> string \<Rightarrow> document \<Rightarrow> document completion" where
  "set_innerHTML i markup doc =
     (case parse_html markup of
        None \<Rightarrow> Beyond
      | Some ns \<Rightarrow>
          Returns
            ((fst doc)\<lparr>message_elements :=
               (message_elements (fst doc))
                 [i := (message_elements (fst doc) ! i)\<lparr>childNodes := ns\<rparr>]\<rparr>,
             snd doc @ [SetInnerHTML i markup]))"

section \<open>Search highlighter\<close>

text \<open>\<open>xs.forEach(f)\<close> for an \<open>f\<close> that works on the document and may throw.\<close>

fun forEach :: "('a \<Rightarrow> 's \<Rightarrow> 's completion) \<Rightarrow> 'a list \<Rightarrow> 's \<Rightarrow> 's completion" where
  "forEach f [] s = Returns s"
| "forEach f (x # xs) s =
     (case f x s of
        Returns s' \<Rightarrow> forEach f xs s'
      | Throws e \<Rightarrow> Throws e
      | Beyond \<Rightarrow> Beyond)"

text \<open>The function mapped over the parts (lines 154 to 158).\<close>

definition highlight_part :: "string \<Rightarrow> string \<Rightarrow> string \<Rightarrow> string" where
  "highlight_part searchQuery searchedMessageColor part =
     (if toLowerCase part = toLowerCase searchQuery
      then span_start @ searchedMessageColor @ '' text-text-white'' @ [CHR 0x22] @ ''>''
             @ part @ span_end
      else part)"

text \<open>The body of the first \<open>forEach\<close> (lines 141 to 164), for one message id.\<close>

definition highlightMessage ::
  "string \<Rightarrow> string \<Rightarrow> string \<Rightarrow> document \<Rightarrow> document completion" where
  "highlightMessage searchQuery searchedMessageColor messageId doc =
     (case querySelector (fst doc) (message_selector messageId) of
        Throws e \<Rightarrow> Throws e
      | Beyond \<Rightarrow> Beyond
      | Returns None \<Rightarrow> Returns doc
      | Returns (Some messageElement) \<Rightarrow>
          (let originalText =
                 textContent_of (childNodes (message_elements (fst doc) ! messageElement))
           in if originalText = [] then Returns doc
              else if includes_string (toLowerCase originalText) (toLowerCase searchQuery) then
                (case RegExp (''('' @ searchQuery @ '')'') of
                   Throws e \<Rightarrow> Throws e
                 | Beyond \<Rightarrow> Beyond
                 | Returns re \<Rightarrow>
                     (let parts = split_regexp originalText re;
                          highlightedContent =
                            concat (map (highlight_part searchQuery searchedMessageColor) parts)
                      in set_innerHTML messageElement highlightedContent doc))
              else Returns doc))"

text \<open>The body of the \<open>forEach\<close> of the cleanup (lines 167 to 174).\<close>

definition cleanupMessage :: "string \<Rightarrow> document \<Rightarrow> document completion" where
  "cleanupMessage messageId doc =
     (case querySelector (fst doc) (message_selector messageId) of
        Throws e \<Rightarrow> Throws e
      | Beyond \<Rightarrow> Beyond
      | Returns None \<Rightarrow> Returns doc
      | Returns (Some messageElement) \<Rightarrow>
          (let text = textContent_of (childNodes (message_elements (fst doc) ! messageElement))
           in if text = [] then Returns doc
              else set_innerHTML messageElement text doc))"

text \<open>
  The cleanup the effect returns is a closure over \<open>scrollElement\<close> and
  \<open>searchedMessageIds\<close>; it is kept as the list it captured. \<open>highlightCleanup\<close> runs it
  on the container as it is when the effect is superseded or the component unmounts.
\<close>

datatype cleanup = Cleanup "string list"

fun highlightCleanup :: "cleanup \<Rightarrow> container \<Rightarrow> document completion" where
  "highlightCleanup (Cleanup searchedMessageIds) scrollElement =
     forEach cleanupMessage searchedMessageIds (scrollElement, [])"

text \<open>
  The effect (lines 135 to 176): the container it leaves, the assignments it made, and
  the cleanup it returns, \<open>None\<close> where it returns early.
\<close>

definition highlightEffect ::
  "string \<Rightarrow> container option \<Rightarrow> string list \<Rightarrow> string
     \<Rightarrow> (container option \<times> effect list \<times> cleanup option) completion" where
  "highlightEffect searchQuery scrollRef searchedMessageIds searchedMessageColor =
     (if searchQuery = [] \<or> scrollRef = None \<or> searchedMessageIds = []
      then Returns (scrollRef, [], None)
      else
        (case scrollRef of
           None \<Rightarrow> Returns (scrollRef, [], None)
         | Some scrollElement \<Rightarrow>
             (case forEach (highlightMessage searchQuery searchedMessageColor)
                     searchedMessageIds (scrollElement, []) of
                Returns doc \<Rightarrow>
                  Returns (Some (fst doc), snd doc, Some (Cleanup searchedMessageIds))
              | Throws e \<Rightarrow> Throws e
              | Beyond \<Rightarrow> Beyond)))"

text \<open>
  The effect followed by its cleanup, as they run when the query is set and later
  changes: the container after both.
\<close>

definition highlight_then_cleanup ::
  "string \<Rightarrow> container \<Rightarrow> string list \<Rightarrow> string \<Rightarrow> container completion" where
  "highlight_then_cleanup searchQuery scrollElement searchedMessageIds searchedMessageColor =
     (case highlightEffect searchQuery (Some scrollElement) searchedMessageIds
             searchedMessageColor of
        Returns (Some c, effects, Some cleanup) \<Rightarrow>
          (case highlightCleanup cleanup c of
             Returns doc \<Rightarrow> Returns (fst doc)
           | Throws e \<Rightarrow> Throws e
           | Beyond \<Rightarrow> Beyond)
      | Returns (Some c, effects, None) \<Rightarrow> Returns c
      | Returns (None, effects, cleanup) \<Rightarrow> Returns scrollElement
      | Throws e \<Rightarrow> Throws e
      | Beyond \<Rightarrow> Beyond)"

text \<open>
  The text of the message element at an index, and the container with the children of
  that element replaced.
\<close>

definition message_text :: "container \<Rightarrow> nat \<Rightarrow> string" where
  "message_text c i = textContent_of (childNodes (message_elements c ! i))"

definition with_childNodes :: "container \<Rightarrow> nat \<Rightarrow> node list \<Rightarrow> container" where
  "with_childNodes c i ns =
     c\<lparr>message_elements := (message_elements c)[i := (message_elements c ! i)\<lparr>childNodes := ns\<rparr>]\<rparr>"

text \<open>
  A character that the pattern language gives no meaning: a query of such characters,
  put into the pattern, is the pattern that matches the query itself.
\<close>

definition literal_char :: "char \<Rightarrow> bool" where
  "literal_char c =
     (\<not> unsupported_syntax c \<and> c \<noteq> CHR ''('' \<and> c \<noteq> CHR '')'' \<and> c \<noteq> CHR ''.'')"

text \<open>
  The code points to which \<open>toLowerCase\<close> and the comparison of the flag \<open>i\<close> send a code
  point below 256.
\<close>

definition lower_code :: "nat \<Rightarrow> nat" where
  "lower_code n =
     (if (65 \<le> n \<and> n \<le> 90) \<or> (192 \<le> n \<and> n \<le> 222 \<and> n \<noteq> 215) then n + 32 else n)"

definition upper_code :: "nat \<Rightarrow> nat" where
  "upper_code n =
     (if (97 \<le> n \<and> n \<le> 122) \<or> (224 \<le> n \<and> n \<le> 254 \<and> n \<noteq> 247) then n - 32 else n)"

text \<open>
  What the specification asks of the highlighter, in its words: the text is split at every
  occurrence of the query, case ignored, from left to right; each occurrence is wrapped
  in an inline marker that carries the style token, and the segments between stay plain
  text. \<open>occurs_at q s\<close>: the query occurs at the start of \<open>s\<close>. \<open>spec_highlight q color
  pending s\<close>: the nodes for \<open>pending @ s\<close>, where \<open>pending\<close> is plain text already passed.
\<close>

definition occurs_at :: "string \<Rightarrow> string \<Rightarrow> bool" where
  "occurs_at q s = (length q \<le> length s \<and> toLowerCase (take (length q) s) = toLowerCase q)"

definition text_nodes :: "string \<Rightarrow> node list" where
  "text_nodes s = (if s = [] then [] else [Text s])"

function spec_highlight :: "string \<Rightarrow> string \<Rightarrow> string \<Rightarrow> string \<Rightarrow> node list" where
  "spec_highlight q color pending s =
     (if s = [] then text_nodes pending
      else if q \<noteq> [] \<and> occurs_at q s then
        text_nodes pending
          @ Element ''span'' [(''class'', color @ '' text-text-white'')] [Text (take (length q) s)]
          # spec_highlight q color [] (drop (length q) s)
      else spec_highlight q color (pending @ [hd s]) (tl s))"
  by pat_completeness auto
termination
  by (relation "measure (\<lambda>(q, color, pending, s). length s)") auto

declare spec_highlight.simps [simp del]

section \<open>Properties of the pagination trigger\<close>

lemma observerEntry_loading:
  "observerEntry True isTop isBottom r e = []"
  by (simp add: observerEntry_def)

text \<open>
  Claim C1. While the loading flag is true, a batch of visibility entries invokes neither
  \<open>loadMoreTop\<close> nor \<open>loadMoreBottom\<close>, whichever sentinels intersect.
\<close>

theorem C1_no_load_while_loading:
  "isLoading \<Longrightarrow> observerCallback isLoading isTop isBottom r es = []"
  by (induction es) (simp_all add: observerEntry_loading)

theorem C1_witness:
  "observerCallback True True True
     (Some \<lparr>scrollHeight = 1400, scrollTop = 0, message_elements = []\<rparr>)
     [\<lparr>isIntersecting = True, target_id = ''top-sentinel''\<rparr>,
      \<lparr>isIntersecting = True, target_id = ''bottom-sentinel''\<rparr>] = []
   \<and> observerCallback False True True
     (Some \<lparr>scrollHeight = 1400, scrollTop = 0, message_elements = []\<rparr>)
     [\<lparr>isIntersecting = True, target_id = ''top-sentinel''\<rparr>,
      \<lparr>isIntersecting = True, target_id = ''bottom-sentinel''\<rparr>]
       = [LoadMoreTop, LoadMoreBottom]"
  using C1_no_load_while_loading [of True True True
     "Some \<lparr>scrollHeight = 1400, scrollTop = 0, message_elements = []\<rparr>"
     "[\<lparr>isIntersecting = True, target_id = ''top-sentinel''\<rparr>,
       \<lparr>isIntersecting = True, target_id = ''bottom-sentinel''\<rparr>]"]
  by (simp add: observerEntry_def)

section \<open>Properties of the lookup\<close>

lemma find_index_from_None:
  "find_index_from i k ms = None \<longleftrightarrow> k \<notin> data_message_id ` set ms"
  by (induction ms arbitrary: i) auto

lemma find_index_from_Some:
  "find_index_from i k ms = Some n \<Longrightarrow>
     i \<le> n \<and> n - i < length ms \<and> data_message_id (ms ! (n - i)) = k
       \<and> k \<notin> data_message_id ` set (take (n - i) ms)"
proof (induction ms arbitrary: i)
  case Nil
  then show ?case by simp
next
  case (Cons m ms)
  show ?case
  proof (cases "data_message_id m = k")
    case True
    with Cons.prems show ?thesis by simp
  next
    case False
    with Cons.prems have rec: "find_index_from (Suc i) k ms = Some n" by simp
    from Cons.IH [OF rec] have le: "Suc i \<le> n" and lt: "n - Suc i < length ms"
      and at: "data_message_id (ms ! (n - Suc i)) = k"
      and before: "k \<notin> data_message_id ` set (take (n - Suc i) ms)" by simp_all
    from le have split: "n - i = Suc (n - Suc i)" by simp
    show ?thesis using le lt at before False by (simp add: split)
  qed
qed

lemma strip_prefix_append: "strip_prefix p (p @ s) = Some s"
  by (induction p) simp_all

lemma css_string_plain:
  "list_all css_plain u \<Longrightarrow> css_string acc (u @ CHR 0x22 # rest) = Returns (rev acc @ u, rest)"
  by (induction u arbitrary: acc) (simp_all add: css_plain_def)

lemma css_string_Returns:
  "css_string acc body = Returns (v, rest) \<Longrightarrow>
     \<exists>u. list_all css_plain u \<and> v = rev acc @ u \<and> body = u @ CHR 0x22 # rest"
proof (induction body arbitrary: acc)
  case Nil
  then show ?case by simp
next
  case (Cons c body)
  show ?case
  proof (cases "c = CHR 0x22")
    case True
    with Cons.prems show ?thesis by auto
  next
    case False
    with Cons.prems have plain: "css_plain c" and rec: "css_string (c # acc) body = Returns (v, rest)"
      by (auto simp: css_plain_def split: if_splits)
    from Cons.IH [OF rec] obtain u where
      u: "list_all css_plain u" "v = rev (c # acc) @ u" "body = u @ CHR 0x22 # rest" by blast
    with plain have "list_all css_plain (c # u) \<and> v = rev acc @ (c # u)
        \<and> c # body = (c # u) @ CHR 0x22 # rest" by simp
    then show ?thesis by blast
  qed
qed

text \<open>
  For an identifier of plain characters the selector is the attribute selector for it,
  and the lookup returns the first message element that carries it. Conversely, where the
  lookup returns at all, the identifier is plain and the result is that of the literal
  search.
\<close>

lemma querySelector_plain:
  assumes "list_all css_plain k"
  shows "querySelector c (message_selector k) = Returns (find_index_from 0 k (message_elements c))"
proof -
  have "message_selector k = (''[data-message-id='' @ [CHR 0x22]) @ (k @ CHR 0x22 # '']'')"
    by (simp add: message_selector_def)
  then have "strip_prefix (''[data-message-id='' @ [CHR 0x22]) (message_selector k)
      = Some (k @ CHR 0x22 # '']'')"
    by (simp only: strip_prefix_append)
  moreover have "css_string [] (k @ CHR 0x22 # '']'') = Returns (k, '']'')"
    using css_string_plain [OF assms, of "[]" "'']''"] by simp
  ultimately show ?thesis by (simp add: querySelector_def)
qed

lemma querySelector_Returns:
  assumes "querySelector c (message_selector k) = Returns r"
  shows "list_all css_plain k \<and> r = find_index_from 0 k (message_elements c)"
proof -
  have "message_selector k = (''[data-message-id='' @ [CHR 0x22]) @ (k @ CHR 0x22 # '']'')"
    by (simp add: message_selector_def)
  then have sp: "strip_prefix (''[data-message-id='' @ [CHR 0x22]) (message_selector k)
      = Some (k @ CHR 0x22 # '']'')"
    by (simp only: strip_prefix_append)
  from assms sp obtain v where
    v: "css_string [] (k @ CHR 0x22 # '']'') = Returns (v, '']'')"
      "r = find_index_from 0 v (message_elements c)"
    by (auto simp: querySelector_def split: completion.splits if_splits)
  from css_string_Returns [OF v(1)] obtain u where
    u: "list_all css_plain u" "v = u" "k @ CHR 0x22 # '']'' = u @ CHR 0x22 # '']''" by auto
  from u(3) have "k = u" by simp
  with u v(2) show ?thesis by simp
qed

lemma querySelector_Some:
  assumes "querySelector c (message_selector k) = Returns (Some n)"
  shows "n < length (message_elements c) \<and> data_message_id (message_elements c ! n) = k
       \<and> k \<notin> data_message_id ` set (take n (message_elements c))"
proof -
  from querySelector_Returns [OF assms]
  have "find_index_from 0 k (message_elements c) = Some n" by simp
  from find_index_from_Some [OF this] show ?thesis by simp
qed

lemma querySelector_None:
  assumes "list_all css_plain k"
  shows "querySelector c (message_selector k) = Returns None
     \<longleftrightarrow> k \<notin> data_message_id ` set (message_elements c)"
  by (simp add: querySelector_plain [OF assms] find_index_from_None)

section \<open>Properties of the reflow compensator\<close>

text \<open>
  Claim C2. On a size change with direction up and the container mounted, the callback
  completes without further effect, the new scroll offset is the prior offset plus the
  difference between the new extent and the previous one, and nothing else of the
  container changes; from extent 1000 to 1400 the offset grows by exactly 400.
\<close>

theorem C2_up_adds_delta:
  "scrollRef_current st = Some c \<Longrightarrow>
     resizeCallback Up cursor st
       = Completes
           (\<lparr>scrollRef_current =
               Some (c\<lparr>scrollTop := scrollTop c + (scrollHeight c - prevScrollHeightRef_current st)\<rparr>),
             prevScrollHeightRef_current = scrollHeight c\<rparr>, [])"
  by (simp add: resizeCallback_def compensate_def Let_def)

theorem C2_witness:
  "scrollRef_current
       \<lparr>scrollRef_current = Some \<lparr>scrollHeight = 1400, scrollTop = 250, message_elements = []\<rparr>,
        prevScrollHeightRef_current = 1000\<rparr>
     = Some \<lparr>scrollHeight = 1400, scrollTop = 250, message_elements = []\<rparr>
   \<and> resizeCallback Up None
        \<lparr>scrollRef_current = Some \<lparr>scrollHeight = 1400, scrollTop = 250, message_elements = []\<rparr>,
         prevScrollHeightRef_current = 1000\<rparr>
     = Completes
         (\<lparr>scrollRef_current =
             Some \<lparr>scrollHeight = 1400, scrollTop = 250 + 400, message_elements = []\<rparr>,
           prevScrollHeightRef_current = 1400\<rparr>, [])"
  using C2_up_adds_delta [of
     "\<lparr>scrollRef_current = Some \<lparr>scrollHeight = 1400, scrollTop = 250, message_elements = []\<rparr>,
       prevScrollHeightRef_current = 1000\<rparr>"
     "\<lparr>scrollHeight = 1400, scrollTop = 250, message_elements = []\<rparr>" None]
  by simp

text \<open>
  Claim C3. On a size change with direction down and the container mounted, the callback
  completes without further effect and the scroll offset is set to the negated difference
  between the new extent and the previous one, whatever it was before; from extent 1000
  to 1300 it becomes exactly -300.
\<close>

theorem C3_down_sets_minus_delta:
  "scrollRef_current st = Some c \<Longrightarrow>
     resizeCallback Down cursor st
       = Completes
           (\<lparr>scrollRef_current =
               Some (c\<lparr>scrollTop := - (scrollHeight c - prevScrollHeightRef_current st)\<rparr>),
             prevScrollHeightRef_current = scrollHeight c\<rparr>, [])"
  by (simp add: resizeCallback_def compensate_def Let_def)

theorem C3_witness:
  "scrollRef_current
       \<lparr>scrollRef_current = Some \<lparr>scrollHeight = 1300, scrollTop = 250, message_elements = []\<rparr>,
        prevScrollHeightRef_current = 1000\<rparr>
     = Some \<lparr>scrollHeight = 1300, scrollTop = 250, message_elements = []\<rparr>
   \<and> resizeCallback Down None
        \<lparr>scrollRef_current = Some \<lparr>scrollHeight = 1300, scrollTop = 250, message_elements = []\<rparr>,
         prevScrollHeightRef_current = 1000\<rparr>
     = Completes
         (\<lparr>scrollRef_current =
             Some \<lparr>scrollHeight = 1300, scrollTop = - 300, message_elements = []\<rparr>,
           prevScrollHeightRef_current = 1300\<rparr>, [])"
  using C3_down_sets_minus_delta [of
     "\<lparr>scrollRef_current = Some \<lparr>scrollHeight = 1300, scrollTop = 250, message_elements = []\<rparr>,
       prevScrollHeightRef_current = 1000\<rparr>"
     "\<lparr>scrollHeight = 1300, scrollTop = 250, message_elements = []\<rparr>" None]
  by simp



text \<open>
  An element that carries a cursor of plain characters is found.
\<close>

lemma plain_cursor_found:
  assumes "list_all css_plain k" "k \<in> data_message_id ` set (message_elements c)"
  shows "\<exists>i. querySelector c (message_selector (template_string (Some k))) = Returns (Some i)"
  using querySelector_None [OF assms(1), of c] querySelector_plain [OF assms(1), of c] assms(2)
  by (cases "find_index_from 0 k (message_elements c)") auto

text \<open>
  Where the lookup returns \<open>null\<close>, the callback completes, leaves the container as it was
  and causes no effect; only the size snapshot is updated.
\<close>

lemma middle_lookup_null:
  "scrollRef_current st = Some c \<Longrightarrow>
   querySelector c (message_selector (template_string cursor)) = Returns None \<Longrightarrow>
     resizeCallback Middle cursor st
       = Completes (st\<lparr>prevScrollHeightRef_current := scrollHeight c\<rparr>, [])"
  by (simp add: resizeCallback_def compensate_def Let_def)

text \<open>
  Claim C5 says that a size change with direction middle whose cursor is not found
  raises no error. The cursor is put into the selector without escaping. For the cursor
  that is one double quote the selector reads \<open>[data-message-id="""]\<close>: the string is
  closed at once and a second string follows, the selector is invalid and \<open>querySelector\<close>
  throws. No element is found, and the callback is left by a \<open>SyntaxError\<close>.
\<close>

theorem C5_quote_cursor_throws:
  "resizeCallback Middle (Some [CHR 0x22])
     \<lparr>scrollRef_current = Some \<lparr>scrollHeight = 1400, scrollTop = 70, message_elements =
        [\<lparr>data_message_id = ''m41'', childNodes = [Text ''a'']\<rparr>]\<rparr>,
      prevScrollHeightRef_current = 1000\<rparr>
   = Aborts SyntaxError
       (\<lparr>scrollRef_current = Some \<lparr>scrollHeight = 1400, scrollTop = 70, message_elements =
          [\<lparr>data_message_id = ''m41'', childNodes = [Text ''a'']\<rparr>]\<rparr>,
         prevScrollHeightRef_current = 1000\<rparr>, [])"
  by code_simp

text \<open>
  Where the callback completes with the container mounted, the size snapshot is the
  extent read during the event, in every direction.
\<close>

lemma snapshot_of_completed_run:
  "scrollRef_current st = Some c \<Longrightarrow> resizeCallback dir cursor st = Completes (st', effects) \<Longrightarrow>
     prevScrollHeightRef_current st' = scrollHeight c"
  by (auto simp: resizeCallback_def Let_def split: completion.splits)

text \<open>
  Claim C6 says that after every size change with the container mounted the snapshot is
  the extent read during the event. Line 121 is reached only if the lookup of line 107
  returns. For the cursor \<open>m4\<close>, line feed, \<open>2\<close> the string in the selector holds a line
  break, the selector is invalid and \<open>querySelector\<close> throws: the extent read is 1400 and
  the snapshot stays 1000.
\<close>

theorem C6_line_break_cursor_keeps_snapshot:
  "resizeCallback Middle (Some (''m4'' @ [CHR 0x0A] @ ''2''))
     \<lparr>scrollRef_current = Some \<lparr>scrollHeight = 1400, scrollTop = 70, message_elements =
        [\<lparr>data_message_id = ''m42'', childNodes = [Text ''b'']\<rparr>]\<rparr>,
      prevScrollHeightRef_current = 1000\<rparr>
   = Aborts SyntaxError
       (\<lparr>scrollRef_current = Some \<lparr>scrollHeight = 1400, scrollTop = 70, message_elements =
          [\<lparr>data_message_id = ''m42'', childNodes = [Text ''b'']\<rparr>]\<rparr>,
         prevScrollHeightRef_current = 1000\<rparr>, [])"
  by code_simp

lemma setIsLoading_calls_append:
  "setIsLoading_calls (xs @ ys) = setIsLoading_calls xs @ setIsLoading_calls ys"
  by (induction xs rule: setIsLoading_calls.induct) simp_all

lemma setIsLoading_calls_observerEntry:
  "setIsLoading_calls (observerEntry l t b r e) = []"
  by (simp add: observerEntry_def)

lemma setIsLoading_calls_observerCallback:
  "setIsLoading_calls (observerCallback l t b r es) = []"
  by (induction es)
    (simp_all add: setIsLoading_calls_append setIsLoading_calls_observerEntry)

text \<open>
  Claim C10. The component calls the setter of the loading flag only where an anchor
  jump settles: a size change with direction up or down, or with the container not
  mounted, completes without any effect, so it schedules no call of \<open>setIsLoading\<close>; and
  the pagination trigger never schedules one.
\<close>

theorem C10_setter_only_on_settle:
  assumes "dir = Up \<or> dir = Down \<or> scrollRef_current st = None"
  shows "(\<exists>st'. resizeCallback dir cursor st = Completes (st', []))
     \<and> setIsLoading_calls (observerCallback isLoading isTop isBottom r es) = []"
  using assms
  by (auto simp: resizeCallback_def compensate_def Let_def setIsLoading_calls_observerCallback
      split: option.split)

theorem C10_witness:
  "(Down = Up \<or> Down = Down
      \<or> scrollRef_current
           \<lparr>scrollRef_current = Some \<lparr>scrollHeight = 1300, scrollTop = 0, message_elements =
              [\<lparr>data_message_id = ''m42'', childNodes = [Text ''b'']\<rparr>]\<rparr>,
            prevScrollHeightRef_current = 1000\<rparr> = None)
   \<and> resizeCallback Down (Some ''m42'')
        \<lparr>scrollRef_current = Some \<lparr>scrollHeight = 1300, scrollTop = 0, message_elements =
           [\<lparr>data_message_id = ''m42'', childNodes = [Text ''b'']\<rparr>]\<rparr>,
         prevScrollHeightRef_current = 1000\<rparr>
     = Completes
         (\<lparr>scrollRef_current = Some \<lparr>scrollHeight = 1300, scrollTop = - 300, message_elements =
            [\<lparr>data_message_id = ''m42'', childNodes = [Text ''b'']\<rparr>]\<rparr>,
           prevScrollHeightRef_current = 1300\<rparr>, [])
   \<and> resizeCallback Middle (Some ''m42'')
        \<lparr>scrollRef_current = Some \<lparr>scrollHeight = 1300, scrollTop = 0, message_elements =
           [\<lparr>data_message_id = ''m42'', childNodes = [Text ''b'']\<rparr>]\<rparr>,
         prevScrollHeightRef_current = 1000\<rparr>
     = Completes
         (\<lparr>scrollRef_current = Some \<lparr>scrollHeight = 1300, scrollTop = 0, message_elements =
            [\<lparr>data_message_id = ''m42'', childNodes = [Text ''b'']\<rparr>]\<rparr>,
           prevScrollHeightRef_current = 1300\<rparr>,
          [ScrollIntoView 0 ''auto'' ''center'', SetTimeout (SetIsLoading False) 1000])
   \<and> setIsLoading_calls
        [ScrollIntoView 0 ''auto'' ''center'', SetTimeout (SetIsLoading False) 1000] = [False]"
proof -
  let ?c = "\<lparr>scrollHeight = 1300, scrollTop = 0, message_elements =
           [\<lparr>data_message_id = ''m42'', childNodes = [Text ''b'']\<rparr>]\<rparr>"
  let ?st = "\<lparr>scrollRef_current = Some ?c, prevScrollHeightRef_current = 1000\<rparr>"
  have found: "querySelector ?c (message_selector (template_string (Some ''m42''))) = Returns (Some 0)"
    by code_simp
  have middle: "resizeCallback Middle (Some ''m42'') ?st
     = Completes
         (\<lparr>scrollRef_current = Some ?c, prevScrollHeightRef_current = 1300\<rparr>,
          [ScrollIntoView 0 ''auto'' ''center'', SetTimeout (SetIsLoading False) 1000])"
    using found by (simp add: resizeCallback_def compensate_def Let_def)
  from C10_setter_only_on_settle [of Down ?st "Some ''m42''" False True True None "[]"] middle
  show ?thesis by (simp add: resizeCallback_def compensate_def Let_def)
qed

section \<open>Properties of the search highlighter\<close>

text \<open>
  Claim C9. With an empty query, or an empty list of matched ids, or the container not
  mounted, the effect returns at once: it assigns no content, leaves the container as it
  is and returns no cleanup. In particular an empty query with matched ids changes
  nothing.
\<close>

theorem C9_no_op:
  "searchQuery = [] \<or> searchedMessageIds = [] \<or> scrollRef = None \<Longrightarrow>
     highlightEffect searchQuery scrollRef searchedMessageIds searchedMessageColor
       = Returns (scrollRef, [], None)"
  by (auto simp: highlightEffect_def)

theorem C9_witness:
  "(([] :: string) = [] \<or> [''m1''] = ([] :: string list)
      \<or> Some \<lparr>scrollHeight = 1000, scrollTop = 0, message_elements =
            [\<lparr>data_message_id = ''m1'', childNodes = [Text ''hello world'']\<rparr>]\<rparr> = None)
   \<and> highlightEffect []
        (Some \<lparr>scrollHeight = 1000, scrollTop = 0, message_elements =
            [\<lparr>data_message_id = ''m1'', childNodes = [Text ''hello world'']\<rparr>]\<rparr>)
        [''m1''] ''bg-border-surface-accent-red-orange''
     = Returns
        (Some \<lparr>scrollHeight = 1000, scrollTop = 0, message_elements =
            [\<lparr>data_message_id = ''m1'', childNodes = [Text ''hello world'']\<rparr>]\<rparr>,
         [], None)"
  using C9_no_op [of "[]" "[''m1'']"
     "Some \<lparr>scrollHeight = 1000, scrollTop = 0, message_elements =
        [\<lparr>data_message_id = ''m1'', childNodes = [Text ''hello world'']\<rparr>]\<rparr>"
     "''bg-border-surface-accent-red-orange''"]
  by simp

text \<open>
  The scenario of the specification: the message \<open>m1\<close> reads \<open>hello world\<close> and the query
  is \<open>World\<close>. The effect assigns once; afterwards the element holds the text \<open>hello \<close>
  followed by a \<open>span\<close> around \<open>world\<close>, in the casing of the message. The cleanup puts the
  single text node \<open>hello world\<close> back.
\<close>

lemma highlight_hello_world:
  "highlightEffect ''World''
     (Some \<lparr>scrollHeight = 1000, scrollTop = 0, message_elements =
        [\<lparr>data_message_id = ''m1'', childNodes = [Text ''hello world'']\<rparr>]\<rparr>)
     [''m1''] ''bg-border-surface-accent-red-orange''
   = Returns
       (Some \<lparr>scrollHeight = 1000, scrollTop = 0, message_elements =
          [\<lparr>data_message_id = ''m1'', childNodes =
             [Text ''hello '',
              Element ''span''
                [(''class'', ''bg-border-surface-accent-red-orange text-text-white'')]
                [Text ''world'']]\<rparr>]\<rparr>,
        [SetInnerHTML 0
           (''hello <span class='' @ [CHR 0x22]
              @ ''bg-border-surface-accent-red-orange text-text-white'' @ [CHR 0x22]
              @ ''>world</span>'')],
        Some (Cleanup [''m1'']))"
  by code_simp

lemma cleanup_hello_world:
  "highlight_then_cleanup ''World''
     \<lparr>scrollHeight = 1000, scrollTop = 0, message_elements =
        [\<lparr>data_message_id = ''m1'', childNodes = [Text ''hello world'']\<rparr>]\<rparr>
     [''m1''] ''bg-border-surface-accent-red-orange''
   = Returns \<lparr>scrollHeight = 1000, scrollTop = 0, message_elements =
        [\<lparr>data_message_id = ''m1'', childNodes = [Text ''hello world'']\<rparr>]\<rparr>"
  by code_simp

text \<open>
  Claim C7 says that the highlighter followed by its cleanup restores the content of a
  matched element to its original text. The query is put into the pattern as it is, so a
  query with a group of its own adds a second capture, and \<open>split\<close> returns the text of
  every match twice. For the message \<open>(a)\<close> and the query \<open>(a)\<close> the parts are \<open>(\<close>, \<open>a\<close>,
  \<open>a\<close>, \<open>)\<close>; none of them equals the query, the element is assigned \<open>(aa)\<close>, and the
  cleanup assigns \<open>(aa)\<close> again: the original text is lost.
\<close>

theorem C7_group_query_not_restored:
  "highlight_then_cleanup ''(a)''
     \<lparr>scrollHeight = 1000, scrollTop = 0, message_elements =
        [\<lparr>data_message_id = ''m1'', childNodes = [Text ''(a)'']\<rparr>]\<rparr>
     [''m1''] ''bg-border-surface-accent-red-orange''
   = Returns \<lparr>scrollHeight = 1000, scrollTop = 0, message_elements =
        [\<lparr>data_message_id = ''m1'', childNodes = [Text ''(aa)'']\<rparr>]\<rparr>"
  by code_simp

lemma split_group_query:
  "RegExp ''((a))'' = Returns [Group [Group [Chr CHR ''a'']]]
   \<and> split_regexp ''(a)'' [Group [Group [Chr CHR ''a'']]] = [''('', ''a'', ''a'', '')'']"
  by code_simp

text \<open>
  Claim C8 says that every occurrence of the query is wrapped, for every query, also one
  with characters that the pattern language gives a meaning. The message \<open>f(x)\<close> contains
  the query \<open>(\<close>; the pattern built from it is \<open>(()\<close>, an unterminated group, and
  \<open>new RegExp\<close> throws: the effect ends with a \<open>SyntaxError\<close> and nothing is wrapped.
\<close>

theorem C8_paren_query_throws:
  "includes_string (toLowerCase ''f(x)'') (toLowerCase ''('')
   \<and> highlightEffect ''(''
        (Some \<lparr>scrollHeight = 1000, scrollTop = 0, message_elements =
           [\<lparr>data_message_id = ''m1'', childNodes = [Text ''f(x)'']\<rparr>]\<rparr>)
        [''m1''] ''bg-border-surface-accent-red-orange''
     = Throws SyntaxError"
  by code_simp

text \<open>
  Where the pattern is well formed the occurrence can still be missed: in \<open>aa.\<close> the
  query \<open>a.\<close> occurs at position 1, but as a pattern it matches \<open>aa\<close> at position 0, which
  is not the query, and the element is assigned its text without any \<open>span\<close>.
\<close>

lemma dot_query_not_wrapped:
  "includes_string (toLowerCase ''aa.'') (toLowerCase ''a.'')
   \<and> highlightEffect ''a.''
        (Some \<lparr>scrollHeight = 1000, scrollTop = 0, message_elements =
           [\<lparr>data_message_id = ''m1'', childNodes = [Text ''aa.'']\<rparr>]\<rparr>)
        [''m1''] ''bg-border-surface-accent-red-orange''
     = Returns
         (Some \<lparr>scrollHeight = 1000, scrollTop = 0, message_elements =
            [\<lparr>data_message_id = ''m1'', childNodes = [Text ''aa.'']\<rparr>]\<rparr>,
          [SetInnerHTML 0 ''aa.''], Some (Cleanup [''m1'']))"
  by code_simp

section \<open>The highlighter and the loading flag\<close>

text \<open>
  The effect of the highlighter and its cleanup record assignments to \<open>innerHTML\<close> only:
  neither schedules a call of \<open>setIsLoading\<close>.
\<close>

lemma forEach_invariant:
  assumes step: "\<And>x s s'. f x s = Returns s' \<Longrightarrow> P s \<Longrightarrow> P s'"
  shows "forEach f xs s = Returns s' \<Longrightarrow> P s \<Longrightarrow> P s'"
proof (induction xs arbitrary: s)
  case Nil
  then show ?case by simp
next
  case (Cons x xs)
  from Cons.prems(1) obtain s1 where s1: "f x s = Returns s1" "forEach f xs s1 = Returns s'"
    by (cases "f x s") simp_all
  from step [OF s1(1) Cons.prems(2)] Cons.IH [OF s1(2)] show ?case by simp
qed

lemma set_innerHTML_calls:
  "set_innerHTML i markup doc = Returns doc' \<Longrightarrow>
     setIsLoading_calls (snd doc') = setIsLoading_calls (snd doc)"
  by (auto simp: set_innerHTML_def setIsLoading_calls_append split: option.splits)

lemma highlightMessage_calls:
  "highlightMessage q color k doc = Returns doc' \<Longrightarrow>
     setIsLoading_calls (snd doc') = setIsLoading_calls (snd doc)"
  by (auto simp: highlightMessage_def Let_def
      split: option.splits if_splits completion.splits dest: set_innerHTML_calls)

lemma cleanupMessage_calls:
  "cleanupMessage k doc = Returns doc' \<Longrightarrow>
     setIsLoading_calls (snd doc') = setIsLoading_calls (snd doc)"
  by (auto simp: cleanupMessage_def Let_def split: option.splits if_splits completion.splits
      dest: set_innerHTML_calls)

lemma highlightEffect_calls:
  assumes "highlightEffect q r ids color = Returns (r', effects, cleanup)"
  shows "setIsLoading_calls effects = []"
proof (cases "q = [] \<or> r = None \<or> ids = []")
  case True
  with assms show ?thesis by (simp add: highlightEffect_def)
next
  case False
  then obtain c where c: "r = Some c" by auto
  from assms False c obtain doc where
    doc: "forEach (highlightMessage q color) ids (c, []) = Returns doc" "effects = snd doc"
    by (auto simp: highlightEffect_def split: completion.splits)
  have "setIsLoading_calls (snd doc) = []"
    using doc(1)
    by (rule forEach_invariant [where P = "\<lambda>d. setIsLoading_calls (snd d) = []", rotated])
      (simp_all add: highlightMessage_calls)
  with doc(2) show ?thesis by simp
qed

lemma highlightCleanup_calls:
  assumes "highlightCleanup cl c = Returns doc"
  shows "setIsLoading_calls (snd doc) = []"
proof -
  obtain ids where cl: "cl = Cleanup ids" by (cases cl)
  from assms cl have run: "forEach cleanupMessage ids (c, []) = Returns doc" by simp
  show ?thesis
    using run
    by (rule forEach_invariant [where P = "\<lambda>d. setIsLoading_calls (snd d) = []", rotated])
      (simp_all add: cleanupMessage_calls)
qed

section \<open>The highlighter on queries without pattern syntax\<close>

text \<open>
  For a query of literal characters the pattern built from it is one group around the
  characters of the query, the parts that \<open>split\<close> returns concatenate to the text, and
  the markup assigned parses to nodes that carry the same text. For such a query, a
  message whose text is plain character data, and a class without markup characters, the
  effect followed by its cleanup leaves the element with its text as one text node.
\<close>

lemma parse_pattern_literal:
  "list_all literal_char q \<Longrightarrow>
     parse_pattern (q @ rest) cur stack = parse_pattern rest (rev (map Chr q) @ cur) stack"
  by (induction q arbitrary: cur) (simp_all add: literal_char_def)

lemma RegExp_literal:
  assumes "list_all literal_char q"
  shows "RegExp (''('' @ q @ '')'') = Returns [Group (map Chr q)]"
proof -
  have "\<not> list_ex unsupported_syntax (''('' @ q @ '')'')"
    using assms by (auto simp: list_ex_iff list_all_iff literal_char_def unsupported_syntax_def)
  moreover have "parse_pattern (''('' @ q @ '')'') [] [] = Returns [Group (map Chr q)]"
    using parse_pattern_literal [OF assms, of "'')''" "[]" "[[]]"] by simp
  ultimately show ?thesis by (simp add: RegExp_def)
qed

lemma match_seq_literal:
  "match_seq (map Chr q) inp = Some (w, caps, rest) \<Longrightarrow>
     caps = [] \<and> inp = w @ rest \<and> length w = length q"
proof (induction q arbitrary: inp w caps rest)
  case Nil
  then show ?case by simp
next
  case (Cons c q)
  from Cons.prems obtain x xs where inp: "inp = x # xs" by (cases inp) auto
  from Cons.prems inp obtain w2 caps2 rest2 where
    m: "match_seq (map Chr q) xs = Some (w2, caps2, rest2)"
    and res: "w = x # w2" "caps = caps2" "rest = rest2"
    by (auto split: if_splits option.splits)
  from Cons.IH [OF m] res inp show ?case by simp
qed

lemma match_group_literal:
  "match_seq [Group (map Chr q)] inp = Some (w, caps, rest) \<Longrightarrow>
     caps = [w] \<and> inp = w @ rest \<and> length w = length q"
  by (auto split: option.splits dest: match_seq_literal)

lemma concat_split_from:
  "q \<noteq> [] \<Longrightarrow> p \<le> i \<Longrightarrow> i \<le> length S \<Longrightarrow>
     concat (split_from [Group (map Chr q)] S p i) = drop p S"
proof (induction "[Group (map Chr q)]" S p i rule: split_from.induct)
  case (1 S p i)
  show ?case
  proof (cases "i < length S")
    case False
    with "1.prems" show ?thesis by (simp add: substring_def)
  next
    case True
    show ?thesis
    proof (cases "match_seq [Group (map Chr q)] (drop i S)")
      case None
      with True "1.hyps"(1) "1.prems" show ?thesis by simp
    next
      case (Some z)
      obtain w caps rest where z: "z = (w, caps, rest)" by (cases z) auto
      from match_group_literal [OF Some [unfolded z]]
      have caps: "caps = [w]" and dr: "drop i S = w @ rest" and len: "length w = length q"
        by simp_all
      from dr have "length (drop i S) = length w + length rest" by simp
      then have le: "i + length w \<le> length S" using True by simp
      define e where "e = min (i + length w) (length S)"
      from le have e: "e = i + length w" by (simp add: e_def)
      from len \<open>q \<noteq> []\<close> have wpos: "0 < length w" by simp
      from wpos e "1.prems"(2) have ne: "e \<noteq> p" by linarith
      have rest: "rest = drop e S"
      proof -
        have "drop e S = drop (length w) (drop i S)" by (simp add: e add.commute)
        also have "\<dots> = rest" by (simp add: dr)
        finally show ?thesis by simp
      qed
      have IH: "concat (split_from [Group (map Chr q)] S e e) = drop e S"
        using "1.hyps"(3) [OF True Some [unfolded z] refl refl e_def ne] le e "1.prems"
        by simp
      have unfold: "split_from [Group (map Chr q)] S p i
          = substring S p i # caps @ split_from [Group (map Chr q)] S e e"
        using True Some z ne by (subst split_from.simps) (simp add: e_def Let_def)
      have "drop (i - p) (drop p S) = drop i S" using "1.prems" by simp
      then have "drop p S = take (i - p) (drop p S) @ drop i S"
        by (metis append_take_drop_id)
      then have "drop p S = substring S p i @ w @ rest"
        by (simp add: substring_def dr)
      with unfold caps IH rest show ?thesis by simp
    qed
  qed
qed

lemma concat_split_regexp:
  "q \<noteq> [] \<Longrightarrow> S \<noteq> [] \<Longrightarrow> concat (split_regexp S [Group (map Chr q)]) = S"
  using concat_split_from [of q 0 0 S] by (simp add: split_regexp_def)

lemma takeWhile_run:
  "list_all P u \<Longrightarrow> rest = [] \<or> \<not> P (hd rest) \<Longrightarrow> takeWhile P (u @ rest) = u"
  by (induction u) (auto simp: takeWhile_eq_Nil_iff neq_Nil_conv)

lemma dropWhile_run:
  "list_all P u \<Longrightarrow> rest = [] \<or> \<not> P (hd rest) \<Longrightarrow> dropWhile P (u @ rest) = rest"
  by (induction u) (auto simp: dropWhile_eq_self_iff neq_Nil_conv)

lemma parse_html_Nil: "parse_html [] = Some []"
  by (subst parse_html.simps) simp

lemma parse_html_text:
  assumes "u \<noteq> []" "list_all data_char u" "rest = [] \<or> \<not> data_char (hd rest)"
  shows "parse_html (u @ rest) = map_option ((#) (Text u)) (parse_html rest)"
proof -
  from assms(1,2) have hd: "data_char (hd (u @ rest))" by (cases u) simp_all
  show ?thesis
    using hd assms(1) takeWhile_run [OF assms(2,3)] dropWhile_run [OF assms(2,3)]
    by (subst parse_html.simps) (simp split: option.split)
qed

lemma parse_html_span:
  assumes "list_all value_char v" "list_all data_char t"
  shows "parse_html (span_start @ v @ CHR 0x22 # ''>'' @ t @ span_end @ rest)
     = map_option ((#) (Element ''span'' [(''class'', v)] (if t = [] then [] else [Text t])))
         (parse_html rest)"
proof -
  let ?r2 = "t @ span_end @ rest"
  let ?r1 = "v @ CHR 0x22 # ''>'' @ ?r2"
  let ?s = "span_start @ ?r1"
  have ne: "?s \<noteq> []" by (simp add: span_start_def)
  have hd: "\<not> data_char (hd ?s)" by (simp add: span_start_def data_char_def)
  have s1: "strip_prefix span_start ?s = Some ?r1" by (rule strip_prefix_append)
  have tv: "takeWhile value_char ?r1 = v"
    by (rule takeWhile_run [OF assms(1)]) (simp add: value_char_def)
  have dv: "dropWhile value_char ?r1 = CHR 0x22 # ''>'' @ ?r2"
    by (rule dropWhile_run [OF assms(1)]) (simp add: value_char_def)
  have s2: "strip_prefix (CHR 0x22 # ''>'') (CHR 0x22 # ''>'' @ ?r2) = Some ?r2" by simp
  have td: "takeWhile data_char ?r2 = t"
    by (rule takeWhile_run [OF assms(2)]) (simp add: span_end_def data_char_def)
  have dd: "dropWhile data_char ?r2 = span_end @ rest"
    by (rule dropWhile_run [OF assms(2)]) (simp add: span_end_def data_char_def)
  have s3: "strip_prefix span_end (span_end @ rest) = Some rest" by (rule strip_prefix_append)
  show ?thesis
    by (subst parse_html.simps) (simp only: ne hd s1 tv dv s2 td dd s3 if_False option.case
        split: option.split, simp split: option.split)
qed

lemma parse_highlighted:
  assumes "list_all value_char color"
  shows "list_all (list_all data_char) parts \<Longrightarrow> list_all data_char u \<Longrightarrow>
     \<exists>ns. parse_html (u @ concat (map (highlight_part q color) parts)) = Some ns
        \<and> textContent_of ns = u @ concat parts"
proof (induction parts arbitrary: u)
  case Nil
  show ?case
  proof (cases "u = []")
    case True
    then show ?thesis by (simp add: textContent_of_def parse_html_Nil)
  next
    case False
    with parse_html_text [of u "[]"] Nil.prems(2) show ?thesis
      by (simp add: textContent_of_def parse_html_Nil)
  qed
next
  case (Cons part parts)
  from Cons.prems have part: "list_all data_char part"
    and parts: "list_all (list_all data_char) parts" by simp_all
  show ?case
  proof (cases "toLowerCase part = toLowerCase q")
    case False
    from Cons.prems(2) part have "list_all data_char (u @ part)" by simp
    from Cons.IH [OF parts this] False show ?thesis
      by (simp add: highlight_part_def)
  next
    case True
    from Cons.IH [OF parts, of "[]"] obtain ns where
      ns: "parse_html (concat (map (highlight_part q color) parts)) = Some ns"
        "textContent_of ns = concat parts" by auto
    let ?rest = "concat (map (highlight_part q color) parts)"
    let ?v = "color @ '' text-text-white''"
    let ?el = "Element ''span'' [(''class'', ?v)] (if part = [] then [] else [Text part])"
    have v: "list_all value_char ?v" using assms by (simp add: value_char_def)
    have hp: "highlight_part q color part
        = span_start @ ?v @ CHR 0x22 # ''>'' @ part @ span_end"
      using True by (simp add: highlight_part_def)
    have span: "parse_html (highlight_part q color part @ ?rest) = Some (?el # ns)"
      using parse_html_span [OF v part, of ?rest] ns(1) by (simp add: hp)
    have text_el: "textContent ?el = part" by simp
    show ?thesis
    proof (cases "u = []")
      case True
      with span ns(2) text_el show ?thesis by (simp add: textContent_of_def)
    next
      case False
      have "\<not> data_char (hd (highlight_part q color part @ ?rest))"
        by (simp add: hp span_start_def data_char_def)
      then have "parse_html (u @ highlight_part q color part @ ?rest)
          = Some (Text u # ?el # ns)"
        using parse_html_text [OF False Cons.prems(2), of "highlight_part q color part @ ?rest"]
          span by simp
      with ns(2) text_el show ?thesis by (simp add: textContent_of_def)
    qed
  qed
qed


lemma find_index_from_update:
  "find_index_from n k (ms[i := (ms ! i)\<lparr>childNodes := ns\<rparr>]) = find_index_from n k ms"
proof (induction ms arbitrary: n i)
  case Nil
  then show ?case by simp
next
  case (Cons m ms)
  then show ?case by (cases i) simp_all
qed

lemma querySelector_with_childNodes:
  "querySelector (with_childNodes c i ns) selector = querySelector c selector"
proof -
  have "find_index_from 0 v (message_elements (with_childNodes c i ns))
      = find_index_from 0 v (message_elements c)" for v
    by (simp add: with_childNodes_def find_index_from_update)
  then show ?thesis
    by (simp add: querySelector_def split: option.split completion.split)
qed

lemma message_text_with_childNodes:
  "i < length (message_elements c) \<Longrightarrow>
     message_text (with_childNodes c i ns) i = textContent_of ns"
  by (simp add: message_text_def with_childNodes_def)

lemma list_all_parts:
  assumes "concat parts = t" "list_all P t"
  shows "list_all (list_all P) parts"
  using assms by (auto simp: list_all_iff)

lemma highlightMessage_literal:
  assumes q: "q \<noteq> []" "list_all literal_char q"
    and color: "list_all value_char color"
    and found: "querySelector c (message_selector k) = Returns (Some i)"
    and plain: "list_all data_char (message_text c i)"
  shows "highlightMessage q color k (c, log) = Returns (c, log)
     \<or> (\<exists>ns markup. highlightMessage q color k (c, log)
            = Returns (with_childNodes c i ns, log @ [SetInnerHTML i markup])
          \<and> textContent_of ns = message_text c i)"
proof (cases "message_text c i \<noteq> []
    \<and> includes_string (toLowerCase (message_text c i)) (toLowerCase q)")
  case False
  with found show ?thesis
    by (auto simp: highlightMessage_def message_text_def Let_def)
next
  case True
  let ?t = "message_text c i"
  let ?parts = "split_regexp ?t [Group (map Chr q)]"
  let ?markup = "concat (map (highlight_part q color) ?parts)"
  from True have ne: "?t \<noteq> []" by simp
  have joined: "concat ?parts = ?t" by (rule concat_split_regexp [OF q(1) ne])
  from parse_highlighted [OF color list_all_parts [OF joined plain], of "[]" q]
  obtain ns where ns: "parse_html ?markup = Some ns" "textContent_of ns = ?t"
    by (auto simp: joined)
  have "highlightMessage q color k (c, log)
      = Returns (with_childNodes c i ns, log @ [SetInnerHTML i ?markup])"
    using found True ns(1) RegExp_literal [OF q(2)]
    by (simp add: highlightMessage_def message_text_def Let_def set_innerHTML_def
        with_childNodes_def)
  with ns(2) show ?thesis by blast
qed

lemma cleanupMessage_text:
  assumes found: "querySelector c (message_selector k) = Returns (Some i)"
    and ne: "message_text c i \<noteq> []"
    and plain: "list_all data_char (message_text c i)"
  shows "cleanupMessage k (c, log)
     = Returns (with_childNodes c i [Text (message_text c i)],
                log @ [SetInnerHTML i (message_text c i)])"
proof -
  have "parse_html (message_text c i) = Some [Text (message_text c i)]"
    using parse_html_text [OF ne plain, of "[]"] by (simp add: parse_html_Nil)
  with found ne show ?thesis
    by (simp add: cleanupMessage_def message_text_def Let_def set_innerHTML_def
        with_childNodes_def)
qed

lemma with_childNodes_twice:
  "i < length (message_elements c) \<Longrightarrow>
     with_childNodes (with_childNodes c i ns) i ns' = with_childNodes c i ns'"
  by (simp add: with_childNodes_def)

lemma roundtrip_literal_query:
  assumes q: "q \<noteq> []" "list_all literal_char q"
    and color: "list_all value_char color"
    and found: "querySelector c (message_selector k) = Returns (Some i)"
    and ne: "message_text c i \<noteq> []"
    and plain: "list_all data_char (message_text c i)"
  shows "highlight_then_cleanup q c [k] color
     = Returns (with_childNodes c i [Text (message_text c i)])"
proof -
  from querySelector_Some [OF found] have i: "i < length (message_elements c)" by simp
  from highlightMessage_literal [OF q color found plain, of "[]"]
  consider (same) "highlightMessage q color k (c, []) = Returns (c, [])"
    | (wrapped) ns markup where
        "highlightMessage q color k (c, []) = Returns (with_childNodes c i ns, [SetInnerHTML i markup])"
        "textContent_of ns = message_text c i"
    by auto
  then show ?thesis
  proof cases
    case same
    with q(1) cleanupMessage_text [OF found ne plain, of "[]"] show ?thesis
      by (simp add: highlight_then_cleanup_def highlightEffect_def)
  next
    case wrapped
    let ?c1 = "with_childNodes c i ns"
    have found1: "querySelector ?c1 (message_selector k) = Returns (Some i)"
      using found by (simp add: querySelector_with_childNodes)
    have text1: "message_text ?c1 i = message_text c i"
      using wrapped(2) i by (simp add: message_text_with_childNodes)
    from cleanupMessage_text [OF found1, of "[]"] ne plain text1
    have "cleanupMessage k (?c1, [])
        = Returns (with_childNodes c i [Text (message_text c i)],
                   [SetInnerHTML i (message_text c i)])"
      by (simp add: with_childNodes_twice [OF i])
    with q(1) wrapped(1) show ?thesis
      by (simp add: highlight_then_cleanup_def highlightEffect_def)
  qed
qed

section \<open>The highlighter against the specification, on queries without pattern syntax\<close>

text \<open>
  The comparison of the flag \<open>i\<close> and the comparison of lower-cased strings relate the
  same strings. Hence, for a query of literal characters, the pattern matches at a
  position exactly when the query occurs there, no segment between two matches equals the
  query, and the markup assigned parses to the nodes the specification describes. The
  nodes carry the characters of the text unchanged.
\<close>

lemma of_char_toLowerCase_unit:
  "(of_char (toLowerCase_unit c) :: nat) = lower_code (of_char c)"
  by (simp add: toLowerCase_unit_def lower_code_def Let_def)

lemma of_char_canonicalize:
  "(of_char (canonicalize c) :: nat) = upper_code (of_char c)"
proof -
  have "(of_char c :: nat) - 32 < 256"
    using nat_of_char_less_256 [of c] by (rule less_imp_diff_less)
  then have "((of_char c :: nat) - 32) mod 256 = of_char c - 32" by (rule mod_less)
  then show ?thesis by (simp add: canonicalize_def upper_code_def Let_def)
qed

lemma lower_upper_code: "lower_code (upper_code n) = lower_code n"
  unfolding lower_code_def upper_code_def
  by (cases "97 \<le> n \<and> n \<le> 122"; cases "224 \<le> n \<and> n \<le> 254 \<and> n \<noteq> 247") auto

lemma upper_lower_code: "upper_code (lower_code n) = upper_code n"
  unfolding lower_code_def upper_code_def
  by (cases "65 \<le> n \<and> n \<le> 90"; cases "192 \<le> n \<and> n \<le> 222 \<and> n \<noteq> 215") auto

lemma toLowerCase_canonicalize: "toLowerCase_unit (canonicalize c) = toLowerCase_unit c"
  by (rule of_char_eqI [where ?'a = nat])
    (simp add: of_char_toLowerCase_unit of_char_canonicalize lower_upper_code)

lemma canonicalize_toLowerCase: "canonicalize (toLowerCase_unit c) = canonicalize c"
  by (rule of_char_eqI [where ?'a = nat])
    (simp add: of_char_toLowerCase_unit of_char_canonicalize upper_lower_code)

lemma same_case_unit:
  "canonicalize x = canonicalize y \<longleftrightarrow> toLowerCase_unit x = toLowerCase_unit y"
  by (metis toLowerCase_canonicalize canonicalize_toLowerCase)

lemma same_case_string:
  "map canonicalize a = map canonicalize b \<longleftrightarrow> toLowerCase a = toLowerCase b"
proof (induction a arbitrary: b)
  case Nil
  then show ?case by (simp add: toLowerCase_def)
next
  case (Cons x a)
  show ?case
  proof (cases b)
    case Nil
    then show ?thesis by (simp add: toLowerCase_def)
  next
    case (Cons y b')
    with Cons.IH [of b'] show ?thesis
      by (simp add: toLowerCase_def same_case_unit)
  qed
qed

lemma match_seq_literal_iff:
  "match_seq (map Chr q) inp =
     (if length q \<le> length inp \<and> map canonicalize (take (length q) inp) = map canonicalize q
      then Some (take (length q) inp, [], drop (length q) inp) else None)"
proof (induction q arbitrary: inp)
  case Nil
  then show ?case by simp
next
  case (Cons c q)
  show ?case
  proof (cases inp)
    case Nil
    then show ?thesis by simp
  next
    case (Cons x xs)
    with Cons.IH [of xs] show ?thesis by simp
  qed
qed

lemma match_group_occurs:
  "match_seq [Group (map Chr q)] inp =
     (if occurs_at q inp
      then Some (take (length q) inp, [take (length q) inp], drop (length q) inp) else None)"
  by (simp add: match_seq_literal_iff occurs_at_def same_case_string)

lemma length_toLowerCase: "length (toLowerCase s) = length s"
  by (simp add: toLowerCase_def)

lemma occurs_at_whole:
  assumes "toLowerCase seg = toLowerCase q"
  shows "occurs_at q (seg @ rest)"
proof -
  from assms have "length seg = length q"
    using length_toLowerCase [of seg] length_toLowerCase [of q] by simp
  with assms show ?thesis by (simp add: occurs_at_def)
qed

lemma parse_html_data: "list_all data_char u \<Longrightarrow> parse_html u = Some (text_nodes u)"
  using parse_html_text [of u "[]"] by (cases "u = []") (simp_all add: parse_html_Nil text_nodes_def)


lemma highlight_part_segment:
  assumes "q \<noteq> []" "p \<le> i" "i \<le> length S" "p < i \<longrightarrow> \<not> occurs_at q (drop p S)"
  shows "highlight_part q color (substring S p i) = substring S p i"
proof (cases "p < i")
  case False
  with assms(1,2) show ?thesis
    by (simp add: highlight_part_def substring_def toLowerCase_def)
next
  case True
  have "drop p S = substring S p i @ drop i S"
    using assms(2) by (metis substring_def append_take_drop_id drop_drop le_add_diff_inverse2)
  with occurs_at_whole [of "substring S p i" q "drop i S"] assms(4) True
  have "toLowerCase (substring S p i) \<noteq> toLowerCase q" by auto
  then show ?thesis by (simp add: highlight_part_def)
qed

lemma parse_split_from:
  assumes q: "q \<noteq> []" and color: "list_all value_char color"
  shows "list_all data_char S \<Longrightarrow> p \<le> i \<Longrightarrow> i \<le> length S \<Longrightarrow> (p < i \<longrightarrow> \<not> occurs_at q (drop p S)) \<Longrightarrow>
     parse_html (concat (map (highlight_part q color) (split_from [Group (map Chr q)] S p i)))
       = Some (spec_highlight q color (substring S p i) (drop i S))"
proof (induction "[Group (map Chr q)]" S p i rule: split_from.induct)
  case (1 S p i)
  note S = "1.prems"(1) and le = "1.prems"(2) and bound = "1.prems"(3) and inv = "1.prems"(4)
  have seg: "highlight_part q color (substring S p i) = substring S p i"
    by (rule highlight_part_segment [OF q le bound inv])
  have seg_data: "list_all data_char (substring S p i)"
    using S by (auto simp: substring_def list_all_iff dest: in_set_takeD in_set_dropD)
  show ?case
  proof (cases "i < length S")
    case False
    with bound have i: "i = length S" by simp
    have "split_from [Group (map Chr q)] S p i = [substring S p (length S)]"
      using False by (subst split_from.simps) simp
    with seg i parse_html_data [OF seg_data] show ?thesis
      by (simp add: spec_highlight.simps [of q color _ "[]"])
  next
    case True
    then have ne: "drop i S \<noteq> []" by simp
    show ?thesis
    proof (cases "occurs_at q (drop i S)")
      case False
      then have m: "match_seq [Group (map Chr q)] (drop i S) = None"
        by (simp only: match_group_occurs if_False)
      have step: "split_from [Group (map Chr q)] S p i = split_from [Group (map Chr q)] S p (Suc i)"
        using True m by (subst split_from.simps) simp
      have inv': "p < Suc i \<longrightarrow> \<not> occurs_at q (drop p S)"
        using inv False le by (cases "p = i") auto
      have IH: "parse_html (concat (map (highlight_part q color)
            (split_from [Group (map Chr q)] S p (Suc i))))
          = Some (spec_highlight q color (substring S p (Suc i)) (drop (Suc i) S))"
        using "1.hyps"(1) [OF True m S] le True inv' by simp
      have grow: "substring S p i @ [hd (drop i S)] = substring S p (Suc i)"
        using True le
        by (simp add: substring_def hd_drop_conv_nth Suc_diff_le take_Suc_conv_app_nth)
      have "spec_highlight q color (substring S p i) (drop i S)
          = spec_highlight q color (substring S p (Suc i)) (drop (Suc i) S)"
        using ne False grow
        by (subst spec_highlight.simps) (simp add: drop_Suc tl_drop)
      with step IH show ?thesis by simp
    next
      case occ: True
      let ?w = "take (length q) (drop i S)"
      let ?e = "i + length q"
      from occ have len: "length q \<le> length (drop i S)"
        and same: "toLowerCase ?w = toLowerCase q" by (simp_all add: occurs_at_def)
      from len True have e: "?e \<le> length S" by simp
      have m: "match_seq [Group (map Chr q)] (drop i S) = Some (?w, [?w], drop (length q) (drop i S))"
        using occ by (simp only: match_group_occurs if_True)
      have lw: "length ?w = length q" using len by simp
      have emin: "min (i + length ?w) (length S) = ?e" using e lw by simp
      from q have "0 < length q" by simp
      with le have nep: "?e \<noteq> p" by linarith
      have step: "split_from [Group (map Chr q)] S p i
          = substring S p i # [?w] @ split_from [Group (map Chr q)] S ?e ?e"
        using True m nep emin by (subst split_from.simps) (simp add: Let_def)
      have IH: "parse_html (concat (map (highlight_part q color)
            (split_from [Group (map Chr q)] S ?e ?e)))
          = Some (spec_highlight q color (substring S ?e ?e) (drop ?e S))"
        using "1.hyps"(3) [OF True m refl refl emin [symmetric] _ S] nep e by simp
      have w_data: "list_all data_char ?w"
        using S by (auto simp: list_all_iff dest: in_set_takeD in_set_dropD)
      have w_ne: "?w \<noteq> []" using q lw by auto
      let ?rest = "concat (map (highlight_part q color) (split_from [Group (map Chr q)] S ?e ?e))"
      let ?v = "color @ '' text-text-white''"
      let ?el = "Element ''span'' [(''class'', ?v)] [Text ?w]"
      have v: "list_all value_char ?v" using color by (simp add: value_char_def)
      have hw: "highlight_part q color ?w = span_start @ ?v @ CHR 0x22 # ''>'' @ ?w @ span_end"
        using same by (simp add: highlight_part_def)
      have span: "parse_html (highlight_part q color ?w @ ?rest)
          = Some (?el # spec_highlight q color [] (drop ?e S))"
        using parse_html_span [OF v w_data, of ?rest] IH w_ne
        by (simp add: hw substring_def)
      have front: "parse_html (substring S p i @ highlight_part q color ?w @ ?rest)
          = Some (text_nodes (substring S p i) @ ?el # spec_highlight q color [] (drop ?e S))"
      proof (cases "substring S p i = []")
        case True
        with span show ?thesis by (simp add: text_nodes_def)
      next
        case False
        have "\<not> data_char (hd (highlight_part q color ?w @ ?rest))"
          by (simp add: hw span_start_def data_char_def)
        with parse_html_text [OF False seg_data, of "highlight_part q color ?w @ ?rest"] span False
        show ?thesis by (simp add: text_nodes_def)
      qed
      have spec: "spec_highlight q color (substring S p i) (drop i S)
          = text_nodes (substring S p i) @ ?el # spec_highlight q color [] (drop ?e S)"
        using ne q occ by (subst spec_highlight.simps) (simp add: add.commute)
      from step seg front spec show ?thesis by simp
    qed
  qed
qed


lemma textContent_of_text_nodes: "textContent_of (text_nodes s) = s"
  by (simp add: text_nodes_def textContent_of_def)

lemma textContent_of_append:
  "textContent_of (xs @ ys) = textContent_of xs @ textContent_of ys"
  by (simp add: textContent_of_def)

lemma spec_highlight_text:
  "textContent_of (spec_highlight q color pending s) = pending @ s"
proof (induction q color pending s rule: spec_highlight.induct)
  case (1 q color pending s)
  show ?case
  proof (cases "s = []")
    case True
    then show ?thesis
      by (subst spec_highlight.simps) (simp add: textContent_of_text_nodes)
  next
    case False
    show ?thesis
    proof (cases "q \<noteq> [] \<and> occurs_at q s")
      case True
      let ?el = "Element ''span'' [(''class'', color @ '' text-text-white'')]
                   [Text (take (length q) s)]"
      have "textContent_of (?el # spec_highlight q color [] (drop (length q) s))
          = take (length q) s @ textContent_of (spec_highlight q color [] (drop (length q) s))"
        by (simp add: textContent_of_def)
      with "1.IH"(1) [OF False True] False True show ?thesis
        by (subst spec_highlight.simps)
          (simp add: textContent_of_append textContent_of_text_nodes)
    next
      case no: False
      from False obtain x xs where s: "s = x # xs" by (cases s) auto
      from no have step: "spec_highlight q color pending s
          = spec_highlight q color (pending @ [hd s]) (tl s)"
        using False by (subst spec_highlight.simps) auto
      from "1.IH"(2) [OF False no] step s show ?thesis by simp
    qed
  qed
qed

lemma highlightMessage_refines:
  assumes q: "q \<noteq> []" "list_all literal_char q"
    and color: "list_all value_char color"
    and found: "querySelector c (message_selector k) = Returns (Some i)"
    and plain: "list_all data_char (message_text c i)"
    and occurs: "message_text c i \<noteq> []"
      "includes_string (toLowerCase (message_text c i)) (toLowerCase q)"
  shows "highlightMessage q color k (c, log)
     = Returns
         (with_childNodes c i (spec_highlight q color [] (message_text c i)),
          log @ [SetInnerHTML i
            (concat (map (highlight_part q color)
               (split_regexp (message_text c i) [Group (map Chr q)])))])"
proof -
  let ?t = "message_text c i"
  have "parse_html (concat (map (highlight_part q color) (split_from [Group (map Chr q)] ?t 0 0)))
      = Some (spec_highlight q color (substring ?t 0 0) (drop 0 ?t))"
    by (rule parse_split_from [OF q(1) color plain]) simp_all
  then have "parse_html (concat (map (highlight_part q color)
        (split_regexp ?t [Group (map Chr q)])))
      = Some (spec_highlight q color [] ?t)"
    using occurs(1) by (simp add: split_regexp_def substring_def)
  with found occurs RegExp_literal [OF q(2)] show ?thesis
    by (simp add: highlightMessage_def message_text_def Let_def set_innerHTML_def
        with_childNodes_def)
qed

end
